theory Spec2Isabelle
  imports Main
begin

section \<open>Arrays\<close>

text \<open>
  The map stores its values in a \<^verbatim>\<open>numpy.ndarray\<close>. An array is its shape (a tuple
  of non-negative extents) and its elements in storage order, which for numpy's default
  layout is row-major: the last index runs fastest.
\<close>

record 'a ndarray =
  shape :: "nat list"
  flat :: "'a list"

definition wf_ndarray :: "'a ndarray \<Rightarrow> bool" where
  "wf_ndarray a = (length (flat a) = prod_list (shape a))"

text \<open>
  \<^verbatim>\<open>numpy.ndindex(*shape)\<close>: all multi-indices of a shape, as nested loops with
  the first axis outermost.
\<close>

fun ndindex :: "nat list \<Rightarrow> nat list list" where
  "ndindex [] = [[]]"
| "ndindex (n # ns) = concat (map (\<lambda>i. map ((#) i) (ndindex ns)) [0..<n])"

text \<open>
  \<^verbatim>\<open>numpy.unravel_index\<close> and \<^verbatim>\<open>numpy.ravel_multi_index\<close> in C order: the
  position in storage of a multi-index, and back.
\<close>

fun unravel_index :: "nat list \<Rightarrow> nat \<Rightarrow> nat list" where
  "unravel_index [] k = []"
| "unravel_index (n # ns) k = (k div prod_list ns) # unravel_index ns (k mod prod_list ns)"

fun ravel_multi_index :: "nat list \<Rightarrow> nat list \<Rightarrow> nat" where
  "ravel_multi_index (n # ns) (i # idx) = i * prod_list ns + ravel_multi_index ns idx"
| "ravel_multi_index ns idx = 0"

text \<open>
  \<^verbatim>\<open>numpy.ndenumerate(arr)\<close> pairs the flat iterator of the array with its
  coordinates: the pairs (multi-index, value) in storage order.
\<close>

definition ndenumerate :: "'a ndarray \<Rightarrow> (nat list \<times> 'a) list" where
  "ndenumerate a = zip (ndindex (shape a)) (flat a)"

section \<open>The abstract map class\<close>

datatype error =
    Exception string
  | ValueError string
  | ImportError string
  | NameError string
  | AttributeError string
  | StopIteration

text \<open>
  Modelled from the spec: the geometry class (\<^verbatim>\<open>gammapy.maps.geom.MapGeom\<close>) is not
  among the sources. Of its interface the map uses the declared shape and the conversion
  from coordinates to pixel indices.
\<close>

record 'c MapGeom =
  geom_shape :: "nat list"
  coord_to_pix :: "'c \<Rightarrow> int list"

text \<open>
  The three attributes \<^verbatim>\<open>_data\<close>, \<^verbatim>\<open>_geom\<close> and \<^verbatim>\<open>_iter\<close> of a
  \<^verbatim>\<open>MapBase\<close> object. \<^verbatim>\<open>_iter\<close> is \<^verbatim>\<open>None\<close> or a running
  \<^verbatim>\<open>ndenumerate\<close> iterator, held as the pairs it has still to yield.
\<close>

record ('c, 'a) MapBase =
  u_data :: "'a ndarray"
  u_geom :: "'c MapGeom"
  u_iter :: "(nat list \<times> 'a) list option"

definition init :: "'c MapGeom \<Rightarrow> 'a ndarray \<Rightarrow> ('c, 'a) MapBase" where
  "init g d = \<lparr>u_data = d, u_geom = g, u_iter = None\<rparr>"

definition data :: "('c, 'a) MapBase \<Rightarrow> 'a ndarray" where
  "data m = u_data m"

definition geom :: "('c, 'a) MapBase \<Rightarrow> 'c MapGeom" where
  "geom m = u_geom m"

text \<open>
  The setter of \<^verbatim>\<open>data\<close>: the result of the call, and the object after it. When
  the shapes differ the exception leaves before the assignment.
\<close>

definition data_setter ::
  "('c, 'a) MapBase \<Rightarrow> 'a ndarray \<Rightarrow> (error + unit) \<times> ('c, 'a) MapBase" where
  "data_setter m val =
     (if shape val \<noteq> shape (data m) then (Inl (Exception ''Wrong shape.''), m)
      else (Inr (), m\<lparr>u_data := val\<rparr>))"

definition iter_dunder :: "('c, 'a) MapBase \<Rightarrow> ('c, 'a) MapBase" where
  "iter_dunder m = m"

text \<open>
  \<^verbatim>\<open>__next__\<close>: a missing iterator is created from the current data; the iterator
  then yields its next pair, or is dropped when it is exhausted and
  \<^verbatim>\<open>StopIteration\<close> is raised again.
\<close>

definition next_dunder ::
  "('c, 'a) MapBase \<Rightarrow> (error + nat list \<times> 'a) \<times> ('c, 'a) MapBase" where
  "next_dunder m =
     (let it = (case u_iter m of None \<Rightarrow> ndenumerate (data m) | Some it \<Rightarrow> it)
      in case it of
           [] \<Rightarrow> (Inl StopIteration, m\<lparr>u_iter := None\<rparr>)
         | x # rest \<Rightarrow> (Inr x, m\<lparr>u_iter := Some rest\<rparr>))"

text \<open>
  A traversal, as a \<^verbatim>\<open>for\<close> loop over the map runs it: \<^verbatim>\<open>__next__\<close> is called
  until it raises \<^verbatim>\<open>StopIteration\<close>. The result is the pairs yielded and the
  object afterwards.
\<close>

definition pending :: "('c, 'a) MapBase \<Rightarrow> (nat list \<times> 'a) list" where
  "pending m = (case u_iter m of None \<Rightarrow> ndenumerate (data m) | Some it \<Rightarrow> it)"

function traverse ::
  "('c, 'a) MapBase \<Rightarrow> (nat list \<times> 'a) list \<times> ('c, 'a) MapBase" where
  "traverse m =
     (case next_dunder m of
        (Inl e, m') \<Rightarrow> ([], m')
      | (Inr x, m') \<Rightarrow> (case traverse m' of (xs, m'') \<Rightarrow> (x # xs, m'')))"
  by pat_completeness auto
termination
  apply (relation "measure (\<lambda>m. length (pending m))")
  apply simp
  apply (auto simp: next_dunder_def pending_def Let_def split: list.splits option.splits)
  done

declare traverse.simps [simp del]

definition for_loop ::
  "('c, 'a) MapBase \<Rightarrow> (nat list \<times> 'a) list \<times> ('c, 'a) MapBase" where
  "for_loop m = traverse (iter_dunder m)"

text \<open>
  The operations of the class that have a body, and a client that applies a sequence of
  them to one object, going on after an exception.
\<close>

datatype 'a map_op = GetData | GetGeom | SetData "'a ndarray" | Iter | Next

fun apply_op :: "('c, 'a) MapBase \<Rightarrow> 'a map_op \<Rightarrow> ('c, 'a) MapBase" where
  "apply_op m GetData = m"
| "apply_op m GetGeom = m"
| "apply_op m (SetData val) = snd (data_setter m val)"
| "apply_op m Iter = iter_dunder m"
| "apply_op m Next = snd (next_dunder m)"

definition run :: "('c, 'a) MapBase \<Rightarrow> 'a map_op list \<Rightarrow> ('c, 'a) MapBase" where
  "run m ops = foldl apply_op m ops"

text \<open>A multi-index addresses an element of an array of shape \<open>s\<close>.\<close>

definition valid_index :: "nat list \<Rightarrow> nat list \<Rightarrow> bool" where
  "valid_index s idx = list_all2 (<) idx s"

section \<open>The factory\<close>

text \<open>
  \<^verbatim>\<open>create\<close> takes keyword arguments: a dictionary from names to values. Of the
  values only strings are looked into; every other value is an opaque object, which has
  no method \<^verbatim>\<open>lower\<close>.
\<close>

datatype 'v pyval = Str string | Obj 'v

type_synonym 'v kwargs = "string \<rightharpoonup> 'v pyval"

text \<open>
  \<^verbatim>\<open>str.lower\<close> on the ASCII letters, and the operator \<^verbatim>\<open>in\<close> on strings:
  \<open>contains s sub\<close> is \<^verbatim>\<open>sub in s\<close>.
\<close>

definition lower_char :: "char \<Rightarrow> char" where
  "lower_char c =
     (case map_of (zip ''ABCDEFGHIJKLMNOPQRSTUVWXYZ'' ''abcdefghijklmnopqrstuvwxyz'') c of
        Some l \<Rightarrow> l
      | None \<Rightarrow> c)"

definition lower :: "string \<Rightarrow> string" where
  "lower s = map lower_char s"

fun startswith :: "string \<Rightarrow> string \<Rightarrow> bool" where
  "startswith s [] = True"
| "startswith [] (c # sub) = False"
| "startswith (x # s) (c # sub) = (x = c \<and> startswith s sub)"

fun contains :: "string \<Rightarrow> string \<Rightarrow> bool" where
  "contains [] sub = (sub = [])"
| "contains (x # s) sub = (startswith (x # s) sub \<or> contains s sub)"

text \<open>
  \<^verbatim>\<open>dict.setdefault\<close>: the value of the key, and the dictionary, in which a missing
  key is now bound to the default.
\<close>

definition setdefault :: "('k \<rightharpoonup> 'v) \<Rightarrow> 'k \<Rightarrow> 'v \<Rightarrow> 'v \<times> ('k \<rightharpoonup> 'v)" where
  "setdefault d k v = (case d k of Some x \<Rightarrow> (x, d) | None \<Rightarrow> (v, d(k \<mapsto> v)))"

text \<open>
  What the body of \<^verbatim>\<open>create\<close> reads from outside the file: the names the modules
  \<^verbatim>\<open>.hpxmap\<close> and \<^verbatim>\<open>.wcsmap\<close> define (objects of type \<open>'c\<close>), the objects
  bound to the global names of the module, and what calling \<^verbatim>\<open>create(**kwargs)\<close>
  on such an object returns.
\<close>

record ('c, 'v, 'm) py_env =
  hpxmap_module :: "string \<rightharpoonup> 'c"
  wcsmap_module :: "string \<rightharpoonup> 'c"
  global_obj :: "string \<Rightarrow> 'c"
  call_create :: "'c \<Rightarrow> 'v kwargs \<Rightarrow> error + 'm"

text \<open>
  The global names of \<^verbatim>\<open>base.py\<close>: those every module has, and those bound by its
  import statements, its assignment to \<^verbatim>\<open>__all__\<close> and its two class statements.
  No builtin is called \<^verbatim>\<open>WcsMap\<close>, so the builtins are left out.
\<close>

definition base_module_names :: "string list" where
  "base_module_names =
     [''__name__'', ''__doc__'', ''__file__'', ''__package__'', ''__builtins__'',
      ''absolute_import'', ''division'', ''print_function'', ''unicode_literals'',
      ''abc'', ''np'', ''six'', ''InheritDocstrings'', ''__all__'', ''MapMeta'', ''MapBase'']"

text \<open>
  \<^verbatim>\<open>from module import name\<close> raises \<^verbatim>\<open>ImportError\<close> when the module does
  not define the name. A name that the function does not assign is looked up among the
  globals, and raises \<^verbatim>\<open>NameError\<close> when it is not there.
\<close>

definition import_from :: "(string \<rightharpoonup> 'c) \<Rightarrow> string \<Rightarrow> error + 'c" where
  "import_from md name = (case md name of None \<Rightarrow> Inl (ImportError name) | Some c \<Rightarrow> Inr c)"

definition load_global :: "('c, 'v, 'm) py_env \<Rightarrow> string \<Rightarrow> error + 'c" where
  "load_global env name =
     (if name \<in> set base_module_names then Inr (global_obj env name) else Inl (NameError name))"

text \<open>
  \<^verbatim>\<open>MapBase.create\<close>. Both import statements bind the local name
  \<^verbatim>\<open>HpxMap\<close>, the second one from \<^verbatim>\<open>.wcsmap\<close>; the name
  \<^verbatim>\<open>WcsMap\<close> is bound by neither, and is a global of the function.
\<close>

definition create :: "('c, 'v, 'm) py_env \<Rightarrow> 'v kwargs \<Rightarrow> error + 'm" where
  "create env kwargs =
     (case import_from (hpxmap_module env) ''HpxMap'' of
        Inl e \<Rightarrow> Inl e
      | Inr hpx_map0 \<Rightarrow>
     (case import_from (wcsmap_module env) ''HpxMap'' of
        Inl e \<Rightarrow> Inl e
      | Inr hpx_map \<Rightarrow>
     (case setdefault kwargs ''map_type'' (Str ''wcs'') of
        (map_type, kwargs') \<Rightarrow>
     (case map_type of
        Obj v \<Rightarrow> Inl (AttributeError ''lower'')
      | Str s \<Rightarrow>
          if contains (lower s) ''wcs'' then
            (case load_global env ''WcsMap'' of
               Inl e \<Rightarrow> Inl e
             | Inr wcs_map \<Rightarrow> call_create env wcs_map kwargs')
          else if contains (lower s) ''hpx'' then call_create env hpx_map kwargs'
          else Inl (ValueError (''Unrecognized map type: '' @ s))))))"

section \<open>The accessors of a concrete map\<close>

text \<open>
  Modelled from the spec: the six accessors and \<^verbatim>\<open>sum_over_axes\<close> are abstract in
  \<^verbatim>\<open>MapBase\<close> (their bodies are \<^verbatim>\<open>pass\<close>); the backends that implement them
  (\<^verbatim>\<open>wcsmap\<close>, \<^verbatim>\<open>hpxmap\<close>) are not among the sources. The definitions of this
  section follow the contract the spec gives for every concrete map.

  A value read from a map is a stored value or the not-a-number sentinel.
\<close>

datatype 'a sample = NaN | Value 'a

text \<open>
  Modelled from the spec: the interpolation setting, \<^verbatim>\<open>None\<close> or one of
  \<^verbatim>\<open>'nearest'\<close> and \<^verbatim>\<open>'linear'\<close>.
\<close>

datatype interp = Nearest | Linear

text \<open>
  Modelled from the spec: a pixel tuple holds one integer index per axis, rounded already
  where the caller gave a fraction, and addresses a pixel of the map when every index lies
  within the extent of its axis. A call addresses a list of such tuples (the spec passes
  them as one array of indices per axis).
\<close>

definition in_domain :: "nat list \<Rightarrow> int list \<Rightarrow> bool" where
  "in_domain s pix = list_all2 (\<lambda>i n. 0 \<le> i \<and> i < int n) pix s"

text \<open>
  Modelled from the spec: the stored value at a pixel tuple, read and written, in the
  row-major storage of the array.
\<close>

definition item :: "'a ndarray \<Rightarrow> int list \<Rightarrow> 'a" where
  "item a pix = flat a ! ravel_multi_index (shape a) (map nat pix)"

definition setitem :: "'a ndarray \<Rightarrow> int list \<Rightarrow> 'a \<Rightarrow> 'a ndarray" where
  "setitem a pix v = a\<lparr>flat := (flat a)[ravel_multi_index (shape a) (map nat pix) := v]\<rparr>"

text \<open>
  Modelled from the spec: \<^verbatim>\<open>get_by_pix\<close> and \<^verbatim>\<open>get_by_coords\<close> return one value
  per address, in the order given, and the sentinel for an address outside the geometry.
  For an address inside, the value is that of the pixel addressed, which is what the
  settings \<^verbatim>\<open>None\<close> and \<^verbatim>\<open>'nearest'\<close> ask for; the spec gives no formula for
  \<^verbatim>\<open>'linear'\<close>. A coordinate is converted to its pixel tuple by the geometry.
\<close>

definition get_pix :: "('c, 'a) MapBase \<Rightarrow> int list \<Rightarrow> 'a sample" where
  "get_pix m pix =
     (if in_domain (geom_shape (geom m)) pix then Value (item (data m) pix) else NaN)"

definition get_by_pix ::
  "('c, 'a) MapBase \<Rightarrow> int list list \<Rightarrow> interp option \<Rightarrow> 'a sample list" where
  "get_by_pix m pix interp = map (get_pix m) pix"

definition get_by_coords ::
  "('c, 'a) MapBase \<Rightarrow> 'c list \<Rightarrow> interp option \<Rightarrow> 'a sample list" where
  "get_by_coords m coords interp = get_by_pix m (map (coord_to_pix (geom m)) coords) interp"

text \<open>
  Modelled from the spec: \<^verbatim>\<open>fill_by_pix\<close> adds each weight to the pixel addressed,
  one entry after the other, and drops the entries addressed outside the map;
  \<^verbatim>\<open>set_by_pix\<close> overwrites instead. Omitted weights are unit weights. A list of
  weights or values of another length than the addresses is refused before anything is
  written.
\<close>

fun fill_entries :: "nat list \<Rightarrow> 'a::plus ndarray \<Rightarrow> (int list \<times> 'a) list \<Rightarrow> 'a ndarray" where
  "fill_entries s a [] = a"
| "fill_entries s a ((pix, w) # rest) =
     fill_entries s (if in_domain s pix then setitem a pix (item a pix + w) else a) rest"

fun set_entries :: "nat list \<Rightarrow> 'a ndarray \<Rightarrow> (int list \<times> 'a) list \<Rightarrow> 'a ndarray" where
  "set_entries s a [] = a"
| "set_entries s a ((pix, v) # rest) =
     set_entries s (if in_domain s pix then setitem a pix v else a) rest"

definition fill_by_pix ::
  "('c, 'a::{plus,one}) MapBase \<Rightarrow> int list list \<Rightarrow> 'a list option
     \<Rightarrow> (error + unit) \<times> ('c, 'a) MapBase" where
  "fill_by_pix m pix weights =
     (let ws = (case weights of None \<Rightarrow> replicate (length pix) 1 | Some ws \<Rightarrow> ws)
      in if length ws \<noteq> length pix then (Inl (ValueError ''length mismatch''), m)
         else (Inr (), m\<lparr>u_data := fill_entries (geom_shape (geom m)) (data m) (zip pix ws)\<rparr>))"

definition fill_by_coords ::
  "('c, 'a::{plus,one}) MapBase \<Rightarrow> 'c list \<Rightarrow> 'a list option
     \<Rightarrow> (error + unit) \<times> ('c, 'a) MapBase" where
  "fill_by_coords m coords weights = fill_by_pix m (map (coord_to_pix (geom m)) coords) weights"

definition set_by_pix ::
  "('c, 'a) MapBase \<Rightarrow> int list list \<Rightarrow> 'a list \<Rightarrow> (error + unit) \<times> ('c, 'a) MapBase" where
  "set_by_pix m pix vals =
     (if length vals \<noteq> length pix then (Inl (ValueError ''length mismatch''), m)
      else (Inr (), m\<lparr>u_data := set_entries (geom_shape (geom m)) (data m) (zip pix vals)\<rparr>))"

definition set_by_coords ::
  "('c, 'a) MapBase \<Rightarrow> 'c list \<Rightarrow> 'a list \<Rightarrow> (error + unit) \<times> ('c, 'a) MapBase" where
  "set_by_coords m coords vals = set_by_pix m (map (coord_to_pix (geom m)) coords) vals"

text \<open>
  Modelled from the spec: \<^verbatim>\<open>sum_over_axes\<close> returns a new map whose axes are the
  spatial ones, the first \<open>nsp\<close> entries of a pixel tuple (two for a grid, one for a
  tessellation), and whose value at a spatial pixel is the sum over the rest of the
  axes, which are contiguous in storage.
\<close>

definition collapse :: "nat \<Rightarrow> 'a::monoid_add ndarray \<Rightarrow> 'a ndarray" where
  "collapse nsp a =
     (let k = prod_list (drop nsp (shape a))
      in \<lparr>shape = take nsp (shape a),
          flat = map (\<lambda>j. sum_list (take k (drop (j * k) (flat a))))
                   [0..<prod_list (take nsp (shape a))]\<rparr>)"

definition sum_over_axes :: "nat \<Rightarrow> ('c, 'a::monoid_add) MapBase \<Rightarrow> ('c, 'a) MapBase" where
  "sum_over_axes nsp m =
     \<lparr>u_data = collapse nsp (data m),
      u_geom =
        \<lparr>geom_shape = take nsp (geom_shape (geom m)),
         coord_to_pix = (\<lambda>c. take nsp (coord_to_pix (geom m) c))\<rparr>,
      u_iter = None\<rparr>"

text \<open>
  Modelled from the spec: the result is a new entity and not a view. With the arrays
  held in a store, an address being a position in it, the array of the result is
  allocated at a fresh address; the call returns the store and that address.
\<close>

definition sum_over_axes_store ::
  "nat \<Rightarrow> 'a::monoid_add ndarray list \<Rightarrow> nat \<Rightarrow> 'a ndarray list \<times> nat" where
  "sum_over_axes_store nsp store a = (store @ [collapse nsp (store ! a)], length store)"

text \<open>\<^verbatim>\<open>numpy.zeros(shape)\<close>.\<close>

definition zeros :: "nat list \<Rightarrow> 'a::zero ndarray" where
  "zeros s = \<lparr>shape = s, flat = replicate (prod_list s) 0\<rparr>"

section \<open>Arrays: the order of enumeration\<close>

lemma length_ndindex: "length (ndindex s) = prod_list s"
  by (induction s) (simp_all add: length_concat comp_def sum_list_triv)

lemma upt_shift: "[a..<a + p] = map (\<lambda>j. a + j) [0..<p]"
  by (induction p) simp_all

lemma map_upt_mult:
  "map f [0..<n * p] = concat (map (\<lambda>i. map (\<lambda>j. f (i * p + j)) [0..<p]) [0..<n])"
proof (induction n)
  case 0
  then show ?case by simp
next
  case (Suc n)
  have "[0..<n * p + p] = [0..<n * p] @ [n * p..<n * p + p]"
    by (rule upt_add_eq_append) simp
  then have "map f [0..<n * p + p] = map f [0..<n * p] @ map f [n * p..<n * p + p]"
    by (simp only: map_append)
  also have "map f [n * p..<n * p + p] = map (\<lambda>j. f (n * p + j)) [0..<p]"
    by (simp only: upt_shift [of "n * p" p] map_map comp_def)
  finally show ?case using Suc by (simp add: add.commute)
qed

lemma ndindex_unravel: "ndindex s = map (unravel_index s) [0..<prod_list s]"
proof (induction s)
  case Nil
  then show ?case by simp
next
  case (Cons n ns)
  let ?p = "prod_list ns"
  have "map (unravel_index (n # ns)) [0..<n * ?p] =
        concat (map (\<lambda>i. map (\<lambda>j. unravel_index (n # ns) (i * ?p + j)) [0..<?p]) [0..<n])"
    by (rule map_upt_mult)
  also have "\<dots> = concat (map (\<lambda>i. map (\<lambda>j. i # unravel_index ns j) [0..<?p]) [0..<n])"
    by (rule arg_cong [where f = concat], rule map_cong, simp, rule map_cong) auto
  also have "\<dots> = ndindex (n # ns)"
    by (simp add: Cons.IH comp_def)
  finally have "map (unravel_index (n # ns)) [0..<n * ?p] = ndindex (n # ns)" .
  then show ?case by (simp only: prod_list.Cons)
qed

lemma ravel_unravel:
  "k < prod_list s \<Longrightarrow> ravel_multi_index s (unravel_index s k) = k"
proof (induction s arbitrary: k)
  case Nil
  then show ?case by simp
next
  case (Cons n ns)
  from Cons.prems have "0 < prod_list ns" by (cases "prod_list ns") auto
  then have "k mod prod_list ns < prod_list ns" by simp
  then show ?case using Cons.IH by simp
qed

lemma unravel_valid: "k < prod_list s \<Longrightarrow> valid_index s (unravel_index s k)"
proof (induction s arbitrary: k)
  case Nil
  then show ?case by (simp add: valid_index_def)
next
  case (Cons n ns)
  from Cons.prems have p: "0 < prod_list ns" by (cases "prod_list ns") auto
  then have "k mod prod_list ns < prod_list ns" by simp
  moreover have "k div prod_list ns < n"
    using Cons.prems p by (simp add: less_mult_imp_div_less mult.commute)
  ultimately show ?case using Cons.IH by (simp add: valid_index_def)
qed

lemma ravel_less: "valid_index s idx \<Longrightarrow> ravel_multi_index s idx < prod_list s"
  unfolding valid_index_def
proof (induction idx s rule: list_all2_induct)
  case Nil
  then show ?case by simp
next
  case (Cons i idx n ns)
  have "i * prod_list ns + ravel_multi_index ns idx < i * prod_list ns + prod_list ns"
    using Cons by simp
  also have "\<dots> = Suc i * prod_list ns" by simp
  also have "\<dots> \<le> n * prod_list ns"
    using Cons.hyps(1) by (intro mult_le_mono1) simp
  finally show ?case by simp
qed

lemma unravel_ravel: "valid_index s idx \<Longrightarrow> unravel_index s (ravel_multi_index s idx) = idx"
  unfolding valid_index_def
proof (induction idx s rule: list_all2_induct)
  case Nil
  then show ?case by simp
next
  case (Cons i idx n ns)
  then have "ravel_multi_index ns idx < prod_list ns"
    using ravel_less [of ns idx] by (simp add: valid_index_def)
  then show ?case using Cons by simp
qed

lemma distinct_ndindex: "distinct (ndindex s)"
proof -
  have "inj_on (unravel_index s) {0..<prod_list s}"
    by (rule inj_on_inverseI [where g = "ravel_multi_index s"]) (simp add: ravel_unravel)
  then show ?thesis by (simp add: ndindex_unravel distinct_map)
qed

lemma set_ndindex: "set (ndindex s) = {idx. valid_index s idx}"
proof (intro set_eqI iffI)
  fix idx assume "idx \<in> set (ndindex s)"
  then show "idx \<in> {idx. valid_index s idx}"
    by (auto simp: ndindex_unravel unravel_valid)
next
  fix idx assume "idx \<in> {idx. valid_index s idx}"
  then have v: "valid_index s idx" by simp
  then have "unravel_index s (ravel_multi_index s idx) = idx" by (rule unravel_ravel)
  moreover have "ravel_multi_index s idx < prod_list s" using v by (rule ravel_less)
  ultimately show "idx \<in> set (ndindex s)"
    by (auto simp: ndindex_unravel image_iff intro!: bexI [where x = "ravel_multi_index s idx"])
qed

lemma ndenumerate_storage_order:
  "wf_ndarray a \<Longrightarrow>
   ndenumerate a = map (\<lambda>k. (unravel_index (shape a) k, flat a ! k)) [0..<length (flat a)]"
proof -
  assume "wf_ndarray a"
  then have l: "length (flat a) = prod_list (shape a)" by (simp add: wf_ndarray_def)
  have "zip (map (unravel_index (shape a)) [0..<length (flat a)]) (flat a) =
        map (\<lambda>k. (unravel_index (shape a) k, flat a ! k)) [0..<length (flat a)]"
    by (rule nth_equalityI) simp_all
  then show ?thesis by (simp add: ndenumerate_def ndindex_unravel l)
qed

lemma traverse_pending: "traverse m = (pending m, m\<lparr>u_iter := None\<rparr>)"
proof (induction "pending m" arbitrary: m)
  case Nil
  then show ?case
    by (subst traverse.simps) (simp add: next_dunder_def pending_def split: option.splits)
next
  case (Cons x rest)
  let ?m' = "m\<lparr>u_iter := Some rest\<rparr>"
  have n: "next_dunder m = (Inr x, ?m')"
    using Cons.hyps(2) [symmetric] by (simp add: next_dunder_def pending_def split: option.splits)
  have "rest = pending ?m'" by (simp add: pending_def)
  then have "traverse ?m' = (pending ?m', ?m'\<lparr>u_iter := None\<rparr>)" by (rule Cons.hyps(1))
  then show ?case using n Cons.hyps(2) [symmetric]
    by (subst traverse.simps) (simp add: pending_def)
qed

section \<open>Data, geometry and iteration\<close>

lemma geom_apply_op: "geom (apply_op m x) = geom m"
  by (cases x) (simp_all add: geom_def data_setter_def iter_dunder_def next_dunder_def Let_def
      split: list.splits option.splits)

lemma geom_run: "geom (run m ops) = geom m"
  unfolding run_def by (induction ops arbitrary: m) (simp_all add: geom_apply_op)

lemma shape_apply_op: "shape (data (apply_op m x)) = shape (data m)"
  by (cases x) (simp_all add: data_def data_setter_def iter_dunder_def next_dunder_def Let_def
      split: list.splits option.splits)

lemma shape_run: "shape (data (run m ops)) = shape (data m)"
  unfolding run_def by (induction ops arbitrary: m) (simp_all add: shape_apply_op)

text \<open>
  C8: the geometry of a map never changes. It is the geometry given to the constructor,
  after any sequence of the operations of the class, and the setter of \<^verbatim>\<open>data\<close>
  leaves it alone whether it succeeds or raises.
\<close>
theorem geom_immutable:
  "geom (init g d) = g \<and> geom (run (init g d) ops) = g \<and>
   geom (snd (data_setter m val)) = geom m"
proof -
  have "geom (init g d) = g" by (simp add: geom_def init_def)
  moreover have "geom (snd (data_setter m val)) = geom m"
    by (simp add: geom_def data_setter_def)
  ultimately show ?thesis by (simp add: geom_run)
qed

text \<open>
  C1, counterexample: the constructor stores what it is given without comparing shapes, so
  a map whose data has shape (2,) and whose geometry has shape (4, 4) is constructed.
\<close>
theorem init_shape_unchecked:
  "shape (data (init \<lparr>geom_shape = [4, 4], coord_to_pix = id\<rparr> \<lparr>shape = [2], flat = [0, 0 :: int]\<rparr>))
   \<noteq> geom_shape (geom (init \<lparr>geom_shape = [4, 4], coord_to_pix = id\<rparr>
        \<lparr>shape = [2], flat = [0, 0 :: int]\<rparr>))"
  by (simp add: init_def data_def geom_def)

text \<open>
  C1, as amended: for a map constructed with data of the geometry's shape, the shape of
  the data equals the shape of the geometry after construction and after any sequence of
  operations, successful or failed reassignments among them; a reassignment with an array
  of another shape than the current data raises and leaves the object as it was, and one
  with an array of the same shape installs it.
\<close>
theorem data_shape_invariant:
  assumes "shape d = geom_shape g"
  shows "shape (data (init g d)) = geom_shape (geom (init g d)) \<and>
         shape (data (run (init g d) ops)) = geom_shape (geom (run (init g d) ops)) \<and>
         (shape val \<noteq> shape (data m) \<longrightarrow>
            data_setter m val = (Inl (Exception ''Wrong shape.''), m)) \<and>
         (shape val = shape (data m) \<longrightarrow>
            data_setter m val = (Inr (), m\<lparr>u_data := val\<rparr>) \<and>
            data (snd (data_setter m val)) = val)"
proof -
  have i: "shape (data (init g d)) = geom_shape (geom (init g d))"
    using assms by (simp add: init_def data_def geom_def)
  have "shape (data (run (init g d) ops)) = geom_shape (geom (run (init g d) ops))"
    using i by (simp add: shape_run geom_run)
  with i show ?thesis by (simp add: data_setter_def data_def)
qed

text \<open>
  C1, witness: a map of shape (2,), reassigned once with an array of shape (2,) and once
  with one of shape (3,).
\<close>
theorem data_shape_invariant_witness:
  "shape (data (run (init \<lparr>geom_shape = [2], coord_to_pix = id\<rparr> \<lparr>shape = [2], flat = [1, 2 :: int]\<rparr>)
      [SetData \<lparr>shape = [2], flat = [3, 4]\<rparr>, SetData \<lparr>shape = [3], flat = [5, 6, 7]\<rparr>, Next]))
     = [2] \<and>
   data_setter (init \<lparr>geom_shape = [2], coord_to_pix = id\<rparr> \<lparr>shape = [2], flat = [1, 2 :: int]\<rparr>)
      \<lparr>shape = [3], flat = [5, 6, 7]\<rparr>
     = (Inl (Exception ''Wrong shape.''),
        init \<lparr>geom_shape = [2], coord_to_pix = id\<rparr> \<lparr>shape = [2], flat = [1, 2 :: int]\<rparr>) \<and>
   data (snd (data_setter (init \<lparr>geom_shape = [2], coord_to_pix = id\<rparr> \<lparr>shape = [2], flat = [1, 2 :: int]\<rparr>)
      \<lparr>shape = [2], flat = [3, 4]\<rparr>)) = \<lparr>shape = [2], flat = [3, 4]\<rparr>"
proof -
  let ?g = "\<lparr>geom_shape = [2], coord_to_pix = id :: int list \<Rightarrow> int list\<rparr>"
  let ?d = "\<lparr>shape = [2], flat = [1, 2 :: int]\<rparr>"
  have h: "shape ?d = geom_shape ?g" by simp
  note t1 = data_shape_invariant [OF h, of "[SetData \<lparr>shape = [2], flat = [3, 4]\<rparr>,
        SetData \<lparr>shape = [3], flat = [5, 6, 7]\<rparr>, Next]" "\<lparr>shape = [3], flat = [5, 6, 7]\<rparr>" "init ?g ?d"]
  note t2 = data_shape_invariant [OF h, of "[]" "\<lparr>shape = [2], flat = [3, 4]\<rparr>" "init ?g ?d"]
  have g: "geom_shape (geom (run (init ?g ?d) [SetData \<lparr>shape = [2], flat = [3, 4]\<rparr>,
        SetData \<lparr>shape = [3], flat = [5, 6, 7]\<rparr>, Next])) = [2]"
    by (simp add: geom_run) (simp add: geom_def init_def)
  have ne: "shape \<lparr>shape = [3], flat = [5, 6, 7 :: int]\<rparr> \<noteq> shape (data (init ?g ?d))"
    by (simp add: data_def init_def)
  have eq: "shape \<lparr>shape = [2], flat = [3, 4 :: int]\<rparr> = shape (data (init ?g ?d))"
    by (simp add: data_def init_def)
  have a: "shape (data (run (init ?g ?d) [SetData \<lparr>shape = [2], flat = [3, 4]\<rparr>,
        SetData \<lparr>shape = [3], flat = [5, 6, 7]\<rparr>, Next])) = [2]"
    using t1 [THEN conjunct2, THEN conjunct1] g by (rule trans)
  have b: "data_setter (init ?g ?d) \<lparr>shape = [3], flat = [5, 6, 7]\<rparr>
      = (Inl (Exception ''Wrong shape.''), init ?g ?d)"
    using t1 ne by blast
  have c: "data (snd (data_setter (init ?g ?d) \<lparr>shape = [2], flat = [3, 4]\<rparr>))
      = \<lparr>shape = [2], flat = [3, 4]\<rparr>"
    using t2 eq by blast
  from a b c show ?thesis by (intro conjI)
qed

lemma for_loop_fresh: "u_iter m = None \<Longrightarrow> for_loop m = (ndenumerate (data m), m)"
  by (simp add: for_loop_def iter_dunder_def traverse_pending pending_def)

lemma ndenumerate_fst: "wf_ndarray a \<Longrightarrow> map fst (ndenumerate a) = ndindex (shape a)"
  by (simp add: ndenumerate_def wf_ndarray_def length_ndindex)

lemma ndenumerate_snd: "wf_ndarray a \<Longrightarrow> map snd (ndenumerate a) = flat a"
  by (simp add: ndenumerate_def wf_ndarray_def length_ndindex)

lemma ravel_ndindex: "map (ravel_multi_index s) (ndindex s) = [0..<prod_list s]"
  by (rule nth_equalityI) (simp_all add: ndindex_unravel ravel_unravel)

text \<open>
  C4: on a map with no traversal in progress, a full traversal yields the pairs of
  \<^verbatim>\<open>ndenumerate\<close> over the data: the k-th pair is the multi-index of storage
  position k with the k-th stored value, so every element is visited exactly once, in
  row-major order, and the multi-indices are all the valid ones, without repetition.
  The traversal ends with the cursor reset, and a second traversal yields the same pairs.
\<close>
theorem iteration_totality:
  assumes "u_iter m = None" and "wf_ndarray (data m)"
  shows "for_loop m = (ndenumerate (data m), m) \<and>
         u_iter (snd (for_loop m)) = None \<and>
         for_loop (snd (for_loop m)) = (ndenumerate (data m), m) \<and>
         ndenumerate (data m) =
           map (\<lambda>k. (unravel_index (shape (data m)) k, flat (data m) ! k))
             [0..<length (flat (data m))] \<and>
         map snd (fst (for_loop m)) = flat (data m) \<and>
         map (ravel_multi_index (shape (data m))) (map fst (fst (for_loop m)))
           = [0..<length (flat (data m))] \<and>
         distinct (map fst (fst (for_loop m))) \<and>
         set (map fst (fst (for_loop m))) = {idx. valid_index (shape (data m)) idx}"
proof -
  have f: "for_loop m = (ndenumerate (data m), m)"
    using assms(1) by (rule for_loop_fresh)
  have l: "length (flat (data m)) = prod_list (shape (data m))"
    using assms(2) by (simp add: wf_ndarray_def)
  have i: "map fst (ndenumerate (data m)) = ndindex (shape (data m))"
    using assms(2) by (rule ndenumerate_fst)
  have 1: "u_iter (snd (for_loop m)) = None" using f assms(1) by simp
  have 2: "for_loop (snd (for_loop m)) = (ndenumerate (data m), m)" using f by simp
  have 3: "ndenumerate (data m) =
      map (\<lambda>k. (unravel_index (shape (data m)) k, flat (data m) ! k)) [0..<length (flat (data m))]"
    using assms(2) by (rule ndenumerate_storage_order)
  have 4: "map snd (fst (for_loop m)) = flat (data m)"
    using assms(2) by (simp only: f fst_conv ndenumerate_snd)
  have 5: "map (ravel_multi_index (shape (data m))) (map fst (fst (for_loop m)))
      = [0..<length (flat (data m))]"
    by (simp only: f fst_conv i ravel_ndindex l)
  have 6: "distinct (map fst (fst (for_loop m)))"
    by (simp only: f fst_conv i distinct_ndindex)
  have 7: "set (map fst (fst (for_loop m))) = {idx. valid_index (shape (data m)) idx}"
    by (simp only: f fst_conv i set_ndindex)
  from f 1 2 3 4 5 6 7 show ?thesis by blast
qed

text \<open>C4, witness: two traversals of a 2 x 2 map.\<close>

theorem iteration_totality_witness:
  "for_loop (init \<lparr>geom_shape = [2, 2], coord_to_pix = id\<rparr> \<lparr>shape = [2, 2], flat = [10, 20, 30, 40 :: int]\<rparr>)
     = ([([0, 0], 10), ([0, 1], 20), ([1, 0], 30), ([1, 1], 40)],
        init \<lparr>geom_shape = [2, 2], coord_to_pix = id\<rparr> \<lparr>shape = [2, 2], flat = [10, 20, 30, 40]\<rparr>) \<and>
   for_loop (snd (for_loop (init \<lparr>geom_shape = [2, 2], coord_to_pix = id\<rparr>
        \<lparr>shape = [2, 2], flat = [10, 20, 30, 40 :: int]\<rparr>)))
     = ([([0, 0], 10), ([0, 1], 20), ([1, 0], 30), ([1, 1], 40)],
        init \<lparr>geom_shape = [2, 2], coord_to_pix = id\<rparr> \<lparr>shape = [2, 2], flat = [10, 20, 30, 40]\<rparr>)"
proof -
  let ?g = "\<lparr>geom_shape = [2, 2], coord_to_pix = id :: int list \<Rightarrow> int list\<rparr>"
  let ?d = "\<lparr>shape = [2, 2], flat = [10, 20, 30, 40 :: int]\<rparr>"
  have h1: "u_iter (init ?g ?d) = None" by (simp add: init_def)
  have h2: "wf_ndarray (data (init ?g ?d))" by (simp add: init_def data_def wf_ndarray_def)
  have e: "ndenumerate (data (init ?g ?d)) = [([0, 0], 10), ([0, 1], 20), ([1, 0], 30), ([1, 1], 40)]"
    by (simp add: init_def data_def ndenumerate_def upt_rec)
  from iteration_totality [OF h1 h2] have
    "for_loop (init ?g ?d) = (ndenumerate (data (init ?g ?d)), init ?g ?d)" and
    "for_loop (snd (for_loop (init ?g ?d))) = (ndenumerate (data (init ?g ?d)), init ?g ?d)"
    by blast+
  then show ?thesis by (simp only: e)
qed

text \<open>
  C10: \<^verbatim>\<open>__iter__\<close> returns the object unchanged, the cursor included, so a
  traversal started on a map whose cursor holds the pairs \<open>rest\<close> yields exactly
  \<open>rest\<close>: it resumes and does not restart.
\<close>
theorem iter_resumes:
  assumes "u_iter m = Some rest"
  shows "iter_dunder m = m \<and> u_iter (iter_dunder m) = Some rest \<and>
         for_loop m = (rest, m\<lparr>u_iter := None\<rparr>) \<and>
         fst (next_dunder (iter_dunder m)) =
           (case rest of [] \<Rightarrow> Inl StopIteration | x # r \<Rightarrow> Inr x)"
  using assms
  by (simp add: iter_dunder_def for_loop_def traverse_pending pending_def next_dunder_def
      split: list.splits)

text \<open>
  C10, witness: after one \<^verbatim>\<open>__next__\<close> on a map of two elements, a traversal
  yields the second element only, where a traversal of the fresh map yields both.
\<close>
theorem iter_resumes_witness:
  "u_iter (snd (next_dunder (init \<lparr>geom_shape = [2], coord_to_pix = id\<rparr> \<lparr>shape = [2], flat = [10, 20 :: int]\<rparr>)))
     = Some [([1], 20)] \<and>
   fst (for_loop (snd (next_dunder (init \<lparr>geom_shape = [2], coord_to_pix = id\<rparr>
        \<lparr>shape = [2], flat = [10, 20 :: int]\<rparr>)))) = [([1], 20)] \<and>
   fst (for_loop (init \<lparr>geom_shape = [2], coord_to_pix = id\<rparr> \<lparr>shape = [2], flat = [10, 20 :: int]\<rparr>))
     = [([0], 10), ([1], 20)]"
proof -
  let ?g = "\<lparr>geom_shape = [2], coord_to_pix = id :: int list \<Rightarrow> int list\<rparr>"
  let ?d = "\<lparr>shape = [2], flat = [10, 20 :: int]\<rparr>"
  have e: "ndenumerate ?d = [([0], 10), ([1], 20)]"
    by (simp add: ndenumerate_def upt_rec)
  have h: "u_iter (snd (next_dunder (init ?g ?d))) = Some [([1], 20)]"
    by (simp add: next_dunder_def init_def data_def e)
  have f: "fst (for_loop (init ?g ?d)) = [([0], 10), ([1], 20)]"
    by (simp add: for_loop_fresh init_def data_def e)
  from iter_resumes [OF h] have
    "fst (for_loop (snd (next_dunder (init ?g ?d)))) = [([1], 20)]" by simp
  with h f show ?thesis by (intro conjI)
qed

section \<open>The factory: dispatch and failure\<close>

lemma startswith_iff: "startswith s sub \<longleftrightarrow> (\<exists>q. s = sub @ q)"
  by (induction s sub rule: startswith.induct) auto

lemma contains_iff: "contains s sub \<longleftrightarrow> (\<exists>p q. s = p @ sub @ q)"
proof (induction s)
  case Nil
  then show ?case by auto
next
  case (Cons x s)
  show ?case
  proof
    assume "contains (x # s) sub"
    then consider "startswith (x # s) sub" | "contains s sub" by auto
    then show "\<exists>p q. x # s = p @ sub @ q"
    proof cases
      case 1
      then obtain q where "x # s = sub @ q" by (auto simp: startswith_iff)
      then have "x # s = [] @ sub @ q" by simp
      then show ?thesis by blast
    next
      case 2
      then obtain p q where "s = p @ sub @ q" using Cons.IH by blast
      then have "x # s = (x # p) @ sub @ q" by simp
      then show ?thesis by blast
    qed
  next
    assume "\<exists>p q. x # s = p @ sub @ q"
    then obtain p q where e: "x # s = p @ sub @ q" by blast
    show "contains (x # s) sub"
    proof (cases p)
      case Nil
      then have "x # s = sub @ q" using e by simp
      then have "startswith (x # s) sub" unfolding startswith_iff by blast
      then show ?thesis by (simp only: contains.simps simp_thms)
    next
      case (Cons y p')
      then have "s = p' @ sub @ q" using e by simp
      then show ?thesis using Cons.IH by auto
    qed
  qed
qed

lemma load_WcsMap: "load_global env ''WcsMap'' = Inl (NameError ''WcsMap'')"
  by (simp add: load_global_def base_module_names_def)

lemma contains_wcs: "contains (lower ''wcs'') ''wcs''"
  by (simp add: lower_def lower_char_def)

text \<open>
  C6: with \<^verbatim>\<open>map_type='wcs'\<close> the factory never reaches the grid backend: it
  raises \<^verbatim>\<open>ImportError\<close> when one of the two imports of \<^verbatim>\<open>HpxMap\<close> fails
  and \<^verbatim>\<open>NameError\<close> for \<^verbatim>\<open>WcsMap\<close> otherwise. With
  \<^verbatim>\<open>map_type='hpx'\<close> and both imports successful it calls the creation routine of
  the object that \<^verbatim>\<open>.wcsmap\<close> exports as \<^verbatim>\<open>HpxMap\<close>, with all the keyword
  arguments.
\<close>

theorem create_wcs_not_dispatched:
  "create env [''map_type'' \<mapsto> Str ''wcs''] =
     (if hpxmap_module env ''HpxMap'' = None \<or> wcsmap_module env ''HpxMap'' = None
      then Inl (ImportError ''HpxMap'') else Inl (NameError ''WcsMap'')) \<and>
   create env [''map_type'' \<mapsto> Str ''hpx''] =
     (case hpxmap_module env ''HpxMap'' of
        None \<Rightarrow> Inl (ImportError ''HpxMap'')
      | Some c1 \<Rightarrow>
          (case wcsmap_module env ''HpxMap'' of
             None \<Rightarrow> Inl (ImportError ''HpxMap'')
           | Some c2 \<Rightarrow> call_create env c2 [''map_type'' \<mapsto> Str ''hpx'']))"
proof -
  have "contains (lower ''hpx'') ''hpx''" "\<not> contains (lower ''hpx'') ''wcs''"
    by (simp_all add: lower_def lower_char_def)
  then show ?thesis
    by (auto simp: create_def import_from_def setdefault_def load_WcsMap contains_wcs
        split: option.splits)
qed

text \<open>
  C9: without a \<^verbatim>\<open>map_type\<close> keyword, \<^verbatim>\<open>setdefault\<close> returns
  \<^verbatim>\<open>'wcs'\<close> and writes it into the keyword arguments; the call then fails as it does
  for \<^verbatim>\<open>map_type='wcs'\<close> and reaches no backend.
\<close>

theorem create_default_not_dispatched:
  "setdefault (kwargs(''map_type'' := None)) ''map_type'' (Str ''wcs'')
     = (Str ''wcs'', kwargs(''map_type'' \<mapsto> Str ''wcs'')) \<and>
   create env (kwargs(''map_type'' := None)) =
     (if hpxmap_module env ''HpxMap'' = None \<or> wcsmap_module env ''HpxMap'' = None
      then Inl (ImportError ''HpxMap'') else Inl (NameError ''WcsMap''))"
  by (auto simp: create_def import_from_def setdefault_def load_WcsMap contains_wcs
      split: option.splits)

text \<open>
  A \<^verbatim>\<open>map_type\<close> string that contains neither "wcs" nor "hpx" in lower case
  reaches the \<^verbatim>\<open>raise ValueError\<close> of the last branch only when the two import
  statements before it have succeeded.
\<close>

lemma create_unrecognized:
  assumes "kwargs ''map_type'' = Some (Str s)"
    and "\<not> contains (lower s) ''wcs''"
    and "\<not> contains (lower s) ''hpx''"
  shows "create env kwargs =
     (if hpxmap_module env ''HpxMap'' = None \<or> wcsmap_module env ''HpxMap'' = None
      then Inl (ImportError ''HpxMap'')
      else Inl (ValueError (''Unrecognized map type: '' @ s)))"
  using assms
  by (auto simp: create_def import_from_def setdefault_def split: option.splits)

text \<open>
  C7: with \<^verbatim>\<open>map_type='fits'\<close> the factory constructs no map in any environment,
  but it raises the \<^verbatim>\<open>ValueError\<close> that names the value only where
  \<^verbatim>\<open>.wcsmap\<close> exports the name \<^verbatim>\<open>HpxMap\<close>. Where \<^verbatim>\<open>.wcsmap\<close>
  defines \<^verbatim>\<open>WcsMap\<close> alone, the name the body goes on to use, the second import
  statement raises \<^verbatim>\<open>ImportError\<close> before \<^verbatim>\<open>map_type\<close> is read.
\<close>

theorem create_unrecognized_import_error:
  "create env [''map_type'' \<mapsto> Str ''fits''] =
     (if hpxmap_module env ''HpxMap'' = None \<or> wcsmap_module env ''HpxMap'' = None
      then Inl (ImportError ''HpxMap'')
      else Inl (ValueError ''Unrecognized map type: fits'')) \<and>
   create \<lparr>hpxmap_module = [''HpxMap'' \<mapsto> 1 :: nat], wcsmap_module = [''WcsMap'' \<mapsto> 2],
       global_obj = (\<lambda>n. 0), call_create = (\<lambda>c (kw :: unit kwargs). Inr c)\<rparr>
     [''map_type'' \<mapsto> Str ''fits'']
   = (Inl (ImportError ''HpxMap'') :: error + nat)"
proof -
  have n: "\<not> contains (lower ''fits'') ''wcs''" "\<not> contains (lower ''fits'') ''hpx''"
    by (simp_all add: lower_def lower_char_def)
  have 1: "create env [''map_type'' \<mapsto> Str ''fits''] =
      (if hpxmap_module env ''HpxMap'' = None \<or> wcsmap_module env ''HpxMap'' = None
       then Inl (ImportError ''HpxMap'')
       else Inl (ValueError ''Unrecognized map type: fits''))"
    using create_unrecognized [of "[''map_type'' \<mapsto> Str ''fits'']" "''fits''" env] n
    by simp
  have 2: "create \<lparr>hpxmap_module = [''HpxMap'' \<mapsto> 1 :: nat], wcsmap_module = [''WcsMap'' \<mapsto> 2],
        global_obj = (\<lambda>n. 0), call_create = (\<lambda>c (kw :: unit kwargs). Inr c)\<rparr>
      [''map_type'' \<mapsto> Str ''fits'']
    = (Inl (ImportError ''HpxMap'') :: error + nat)"
    by (simp add: create_def import_from_def)
  from 1 2 show ?thesis by (intro conjI)
qed

section \<open>The accessors: accumulation, overwriting and reads outside the map\<close>

lemma in_domain_valid: "in_domain s p \<Longrightarrow> valid_index s (map nat p)"
  unfolding in_domain_def valid_index_def list_all2_map1
  by (erule list_all2_mono) auto

lemma in_domain_nonneg: "in_domain s p \<Longrightarrow> map int (map nat p) = p"
  unfolding in_domain_def
  by (induction p s rule: list_all2_induct) auto

lemma ravel_inj:
  assumes "in_domain s p" and "in_domain s q"
    and "ravel_multi_index s (map nat p) = ravel_multi_index s (map nat q)"
  shows "p = q"
proof -
  have vp: "valid_index s (map nat p)" using assms(1) by (rule in_domain_valid)
  have vq: "valid_index s (map nat q)" using assms(2) by (rule in_domain_valid)
  have "map nat p = unravel_index s (ravel_multi_index s (map nat p))"
    using vp by (rule unravel_ravel [symmetric])
  also have "\<dots> = unravel_index s (ravel_multi_index s (map nat q))"
    using assms(3) by (rule arg_cong)
  also have "\<dots> = map nat q"
    using vq by (rule unravel_ravel)
  finally have "map int (map nat p) = map int (map nat q)" by (rule arg_cong)
  then show ?thesis
    by (simp only: in_domain_nonneg [OF assms(1)] in_domain_nonneg [OF assms(2)])
qed

lemma ravel_in_range:
  "wf_ndarray a \<Longrightarrow> in_domain (shape a) p \<Longrightarrow>
   ravel_multi_index (shape a) (map nat p) < length (flat a)"
  by (simp add: wf_ndarray_def ravel_less in_domain_valid)

lemma shape_setitem: "shape (setitem a p v) = shape a"
  by (simp add: setitem_def)

lemma wf_setitem: "wf_ndarray a \<Longrightarrow> wf_ndarray (setitem a p v)"
  by (simp add: setitem_def wf_ndarray_def)

lemma item_setitem:
  assumes "wf_ndarray a" and "in_domain (shape a) p" and "in_domain (shape a) q"
  shows "item (setitem a p v) q = (if q = p then v else item a q)"
proof (cases "q = p")
  case True
  then show ?thesis using assms by (simp add: item_def setitem_def ravel_in_range)
next
  case False
  then have "ravel_multi_index (shape a) (map nat p) \<noteq> ravel_multi_index (shape a) (map nat q)"
    using assms ravel_inj by blast
  then show ?thesis using False by (simp add: item_def setitem_def)
qed

lemma shape_fill_entries: "shape (fill_entries s a es) = shape a"
  by (induction s a es rule: fill_entries.induct) (simp_all add: shape_setitem)

lemma wf_fill_entries: "wf_ndarray a \<Longrightarrow> wf_ndarray (fill_entries s a es)"
  by (induction s a es rule: fill_entries.induct) (simp_all add: wf_setitem)

lemma shape_set_entries: "shape (set_entries s a es) = shape a"
  by (induction s a es rule: set_entries.induct) (simp_all add: shape_setitem)

lemma wf_set_entries: "wf_ndarray a \<Longrightarrow> wf_ndarray (set_entries s a es)"
  by (induction s a es rule: set_entries.induct) (simp_all add: wf_setitem)

lemma item_step:
  assumes "wf_ndarray a" and "shape a = s" and "in_domain s p"
  shows "item (if in_domain s pix then setitem a pix v else a) p
         = (if pix = p then v else item a p)"
proof (cases "in_domain s pix")
  case True
  then show ?thesis using assms item_setitem [of a pix p v] by auto
next
  case False
  then have "pix \<noteq> p" using assms(3) by auto
  then show ?thesis using False by simp
qed

lemma wf_step: "wf_ndarray a \<Longrightarrow> wf_ndarray (if c then setitem a pix v else a)"
  by (simp add: wf_setitem)

lemma shape_step: "shape (if c then setitem a pix v else a) = shape a"
  by (simp add: shape_setitem)

lemma item_fill_entries:
  fixes a :: "'a::monoid_add ndarray"
  assumes "wf_ndarray a" and "shape a = s" and "in_domain s p"
  shows "item (fill_entries s a es) p
         = item a p + sum_list (map snd (filter (\<lambda>e. fst e = p) es))"
  using assms
proof (induction es arbitrary: a)
  case Nil
  then show ?case by simp
next
  case (Cons e es)
  obtain pix w where e: "e = (pix, w)" by (cases e)
  define a' where "a' = (if in_domain s pix then setitem a pix (item a pix + w) else a)"
  have wf': "wf_ndarray a'" unfolding a'_def using Cons.prems(1) by (rule wf_step)
  have sh': "shape a' = s" unfolding a'_def using Cons.prems(2) by (simp only: shape_step)
  have ih: "item (fill_entries s a' es) p
      = item a' p + sum_list (map snd (filter (\<lambda>e. fst e = p) es))"
    using wf' sh' Cons.prems(3) by (rule Cons.IH)
  have it: "item a' p = (if pix = p then item a pix + w else item a p)"
    unfolding a'_def using Cons.prems by (rule item_step)
  have st: "fill_entries s a (e # es) = fill_entries s a' es"
    by (simp only: e a'_def fill_entries.simps)
  have fl: "filter (\<lambda>e. fst e = p) (e # es)
      = (if pix = p then [(pix, w)] else []) @ filter (\<lambda>e. fst e = p) es"
    by (simp add: e)
  show ?case unfolding st ih it fl by (simp add: add.assoc)
qed

lemma item_set_entries:
  assumes "wf_ndarray a" and "shape a = s" and "in_domain s p"
  shows "item (set_entries s a es) p
         = (case filter (\<lambda>e. fst e = p) es of [] \<Rightarrow> item a p | e # fs \<Rightarrow> snd (last (e # fs)))"
  using assms
proof (induction es arbitrary: a)
  case Nil
  then show ?case by simp
next
  case (Cons e es)
  obtain pix v where e: "e = (pix, v)" by (cases e)
  define a' where "a' = (if in_domain s pix then setitem a pix v else a)"
  have wf': "wf_ndarray a'" unfolding a'_def using Cons.prems(1) by (rule wf_step)
  have sh': "shape a' = s" unfolding a'_def using Cons.prems(2) by (simp only: shape_step)
  have ih: "item (set_entries s a' es) p
      = (case filter (\<lambda>e. fst e = p) es of [] \<Rightarrow> item a' p | e # fs \<Rightarrow> snd (last (e # fs)))"
    using wf' sh' Cons.prems(3) by (rule Cons.IH)
  have it: "item a' p = (if pix = p then v else item a p)"
    unfolding a'_def using Cons.prems by (rule item_step)
  have st: "set_entries s a (e # es) = set_entries s a' es"
    by (simp only: e a'_def set_entries.simps)
  have fl: "filter (\<lambda>e. fst e = p) (e # es)
      = (if pix = p then [(pix, v)] else []) @ filter (\<lambda>e. fst e = p) es"
    by (simp add: e)
  show ?case unfolding st ih it fl by (simp split: list.splits)
qed

lemma geom_fill_by_pix: "geom (snd (fill_by_pix m pix weights)) = geom m"
  by (simp add: fill_by_pix_def geom_def Let_def)

lemma data_fill_by_pix:
  "length ws = length pix \<Longrightarrow>
   data (snd (fill_by_pix m pix (Some ws)))
     = fill_entries (geom_shape (geom m)) (data m) (zip pix ws)"
  by (simp add: fill_by_pix_def data_def)

lemma data_fill_by_pix_unit:
  "data (snd (fill_by_pix m pix None))
     = fill_entries (geom_shape (geom m)) (data m) (zip pix (replicate (length pix) 1))"
  by (simp add: fill_by_pix_def data_def)

lemma data_set_by_pix:
  "length vs = length pix \<Longrightarrow>
   data (snd (set_by_pix m pix vs))
     = set_entries (geom_shape (geom m)) (data m) (zip pix vs)"
  by (simp add: set_by_pix_def data_def)

text \<open>
  C2: on a map whose data has the geometry's shape, after \<^verbatim>\<open>fill_by_pix\<close> the value
  at a pixel of the map is the value before plus the sum of the weights of all entries
  that address it, so duplicates within one call accumulate, and two calls each depositing
  weight 1 add 2; after \<^verbatim>\<open>set_by_pix\<close> it is the value of the last entry that
  addresses it, or the value before when there is none. The accessors by coordinates are
  the accessors by pixel at the pixel tuples of the coordinates.
\<close>

theorem fill_accumulates_set_overwrites:
  fixes m :: "('c, 'a::{monoid_add,one}) MapBase"
  assumes "wf_ndarray (data m)"
    and "shape (data m) = geom_shape (geom m)"
    and "in_domain (geom_shape (geom m)) p"
    and "length ws = length pix"
    and "length vs = length pix"
  shows "item (data (snd (fill_by_pix m pix (Some ws)))) p
           = item (data m) p + sum_list (map snd (filter (\<lambda>e. fst e = p) (zip pix ws))) \<and>
         item (data (snd (fill_by_pix (snd (fill_by_pix m [p] None)) [p] None))) p
           = item (data m) p + 1 + 1 \<and>
         item (data (snd (fill_by_pix m [p, p] None))) p = item (data m) p + 1 + 1 \<and>
         item (data (snd (set_by_pix m pix vs))) p
           = (case filter (\<lambda>e. fst e = p) (zip pix vs) of
                [] \<Rightarrow> item (data m) p
              | e # fs \<Rightarrow> snd (last (e # fs))) \<and>
         item (data (snd (set_by_pix m [p, p] [x, y]))) p = y \<and>
         fill_by_coords m coords weights
           = fill_by_pix m (map (coord_to_pix (geom m)) coords) weights \<and>
         set_by_coords m coords vals
           = set_by_pix m (map (coord_to_pix (geom m)) coords) vals"
proof -
  let ?s = "geom_shape (geom m)"
  have 1: "item (data (snd (fill_by_pix m pix (Some ws)))) p
      = item (data m) p + sum_list (map snd (filter (\<lambda>e. fst e = p) (zip pix ws)))"
    using assms by (simp only: data_fill_by_pix item_fill_entries)
  let ?m1 = "snd (fill_by_pix m [p] None)"
  have d1: "data ?m1 = fill_entries ?s (data m) [(p, 1)]"
    by (simp add: data_fill_by_pix_unit)
  have wf1: "wf_ndarray (data ?m1)"
    unfolding d1 using assms(1) by (rule wf_fill_entries)
  have sh1: "shape (data ?m1) = ?s"
    unfolding d1 using assms(2) by (simp only: shape_fill_entries)
  have i1: "item (data ?m1) p = item (data m) p + 1"
    unfolding d1 by (simp add: item_fill_entries [OF assms(1,2,3)] del: fill_entries.simps)
  have "data (snd (fill_by_pix ?m1 [p] None)) = fill_entries ?s (data ?m1) [(p, 1)]"
    by (simp add: data_fill_by_pix_unit geom_fill_by_pix)
  then have 2: "item (data (snd (fill_by_pix ?m1 [p] None))) p = item (data m) p + 1 + 1"
    by (simp add: item_fill_entries [OF wf1 sh1 assms(3)] i1 del: fill_entries.simps)
  have "data (snd (fill_by_pix m [p, p] None)) = fill_entries ?s (data m) [(p, 1), (p, 1)]"
    by (simp add: data_fill_by_pix_unit)
  then have 3: "item (data (snd (fill_by_pix m [p, p] None))) p = item (data m) p + 1 + 1"
    by (simp add: item_fill_entries [OF assms(1,2,3)] add.assoc del: fill_entries.simps)
  have 4: "item (data (snd (set_by_pix m pix vs))) p
      = (case filter (\<lambda>e. fst e = p) (zip pix vs) of
           [] \<Rightarrow> item (data m) p
         | e # fs \<Rightarrow> snd (last (e # fs)))"
    using assms by (simp only: data_set_by_pix item_set_entries)
  have "data (snd (set_by_pix m [p, p] [x, y])) = set_entries ?s (data m) [(p, x), (p, y)]"
    by (simp add: data_set_by_pix)
  then have 5: "item (data (snd (set_by_pix m [p, p] [x, y]))) p = y"
    by (simp add: item_set_entries [OF assms(1,2,3)] del: set_entries.simps)
  have 6: "fill_by_coords m coords weights
      = fill_by_pix m (map (coord_to_pix (geom m)) coords) weights"
    by (simp add: fill_by_coords_def)
  have 7: "set_by_coords m coords vals
      = set_by_pix m (map (coord_to_pix (geom m)) coords) vals"
    by (simp add: set_by_coords_def)
  from 1 2 3 4 5 6 7 show ?thesis by (intro conjI)
qed

text \<open>
  C2, witness: on a 2 x 2 map of zeros, two fills of weight 1 at one pixel leave 2 there,
  weights 3 and 5 at one pixel with an entry outside the map between them leave 8, and
  setting 5 then 7 at one pixel in one call leaves 7.
\<close>

theorem fill_accumulates_set_overwrites_witness:
  "item (data (snd (fill_by_pix
       (snd (fill_by_pix (init \<lparr>geom_shape = [2, 2], coord_to_pix = id\<rparr> (zeros [2, 2]))
          [[1, 0]] None))
       [[1, 0]] None))) [1, 0] = (2 :: int) \<and>
   item (data (snd (fill_by_pix (init \<lparr>geom_shape = [2, 2], coord_to_pix = id\<rparr> (zeros [2, 2]))
       [[1, 0], [5, 5], [1, 0]] (Some [3, 4, 5])))) [1, 0] = (8 :: int) \<and>
   item (data (snd (set_by_pix (init \<lparr>geom_shape = [2, 2], coord_to_pix = id\<rparr> (zeros [2, 2]))
       [[1, 0], [1, 0]] [5, 7]))) [1, 0] = (7 :: int)"
proof -
  let ?m = "init \<lparr>geom_shape = [2, 2], coord_to_pix = id :: int list \<Rightarrow> int list\<rparr>
              (zeros [2, 2] :: int ndarray)"
  let ?p = "[1, 0] :: int list"
  have wf: "wf_ndarray (data ?m)"
    by (simp add: wf_ndarray_def data_def init_def zeros_def)
  have sh: "shape (data ?m) = geom_shape (geom ?m)"
    by (simp add: data_def geom_def init_def zeros_def)
  have dom: "in_domain (geom_shape (geom ?m)) ?p"
    by (simp add: in_domain_def geom_def init_def)
  have z: "item (data ?m) ?p = 0"
    by (simp add: item_def data_def init_def zeros_def)
  have l: "length [3, 4, 5 :: int] = length [[1, 0], [5, 5], [1, 0 :: int]]"
    "length [5, 6, 7 :: int] = length [[1, 0], [5, 5], [1, 0 :: int]]"
    by simp_all
  note t = fill_accumulates_set_overwrites [OF wf sh dom l, where x = 5 and y = 7]
  have a: "item (data (snd (fill_by_pix (snd (fill_by_pix ?m [?p] None)) [?p] None))) ?p = 2"
    using t [THEN conjunct2, THEN conjunct1] by (simp add: z)
  have b: "item (data (snd (fill_by_pix ?m [[1, 0], [5, 5], [1, 0]] (Some [3, 4, 5])))) ?p = 8"
    using t [THEN conjunct1] by (simp add: z)
  have c: "item (data (snd (set_by_pix ?m [?p, ?p] [5, 7]))) ?p = 7"
    using t [THEN conjunct2, THEN conjunct2, THEN conjunct2, THEN conjunct2, THEN conjunct1] .
  from a b c show ?thesis by (intro conjI)
qed

text \<open>
  C3: \<^verbatim>\<open>get_by_pix\<close> and \<^verbatim>\<open>get_by_coords\<close> return a value for every address
  given, whatever the addresses are, and the element for an address outside the
  geometry's extent is the sentinel.
\<close>

theorem out_of_domain_read:
  "length (get_by_pix m pix interp) = length pix \<and>
   length (get_by_coords m coords interp) = length coords \<and>
   (\<forall>k < length pix. \<not> in_domain (geom_shape (geom m)) (pix ! k)
      \<longrightarrow> get_by_pix m pix interp ! k = NaN) \<and>
   (\<forall>k < length coords.
      \<not> in_domain (geom_shape (geom m)) (coord_to_pix (geom m) (coords ! k))
      \<longrightarrow> get_by_coords m coords interp ! k = NaN)"
  by (simp add: get_by_pix_def get_by_coords_def get_pix_def)

text \<open>
  C3, witness: on a 2 x 2 map the addresses (9, 0) and (-1, 0) read as the sentinel.
\<close>

theorem out_of_domain_read_witness:
  "get_by_pix (init \<lparr>geom_shape = [2, 2], coord_to_pix = id\<rparr> (zeros [2, 2] :: int ndarray))
      [[0, 0], [9, 0], [- 1, 0]] None ! 1 = NaN \<and>
   get_by_pix (init \<lparr>geom_shape = [2, 2], coord_to_pix = id\<rparr> (zeros [2, 2] :: int ndarray))
      [[0, 0], [9, 0], [- 1, 0]] None ! 2 = NaN \<and>
   get_by_coords (init \<lparr>geom_shape = [2, 2], coord_to_pix = id\<rparr> (zeros [2, 2] :: int ndarray))
      [[0, 0], [9, 0], [- 1, 0]] (Some Linear) ! 1 = NaN"
proof -
  let ?m = "init \<lparr>geom_shape = [2, 2], coord_to_pix = id :: int list \<Rightarrow> int list\<rparr>
              (zeros [2, 2] :: int ndarray)"
  let ?pix = "[[0, 0], [9, 0], [- 1, 0]] :: int list list"
  have n1: "\<not> in_domain (geom_shape (geom ?m)) (?pix ! 1)"
    by (simp add: in_domain_def geom_def init_def)
  have n2: "\<not> in_domain (geom_shape (geom ?m)) (?pix ! 2)"
    by (simp add: in_domain_def geom_def init_def)
  have n3: "\<not> in_domain (geom_shape (geom ?m)) (coord_to_pix (geom ?m) (?pix ! 1))"
    by (simp add: in_domain_def geom_def init_def)
  have k: "(1 :: nat) < length ?pix" "(2 :: nat) < length ?pix" by simp_all
  note t = out_of_domain_read [of ?m ?pix None ?pix]
  note u = out_of_domain_read [of ?m ?pix "Some Linear" ?pix]
  have a: "get_by_pix ?m ?pix None ! 1 = NaN" using t k(1) n1 by blast
  have b: "get_by_pix ?m ?pix None ! 2 = NaN" using t k(2) n2 by blast
  have c: "get_by_coords ?m ?pix (Some Linear) ! 1 = NaN" using u k(1) n3 by blast
  from a b c show ?thesis by (intro conjI)
qed

section \<open>Summation over the non-spatial axes\<close>

lemma sum_list_chunks:
  fixes xs :: "'a::monoid_add list"
  shows "sum_list (map (\<lambda>j. sum_list (take k (drop (j * k) xs))) [0..<n])
         = sum_list (take (n * k) xs)"
proof (induction n)
  case 0
  then show ?case by simp
next
  case (Suc n)
  have "take (n * k + k) xs = take (n * k) xs @ take k (drop (n * k) xs)"
    by (rule take_add)
  then have "sum_list (take (Suc n * k) xs)
      = sum_list (take (n * k) xs) + sum_list (take k (drop (n * k) xs))"
    by (simp add: add.commute)
  then show ?case using Suc by simp
qed

lemma ravel_append:
  "length i1 = length s1 \<Longrightarrow>
   ravel_multi_index (s1 @ s2) (i1 @ i2)
     = ravel_multi_index s1 i1 * prod_list s2 + ravel_multi_index s2 i2"
proof (induction s1 arbitrary: i1)
  case Nil
  then show ?case by simp
next
  case (Cons n s1)
  then obtain i i1' where i: "i1 = i # i1'" "length i1' = length s1"
    by (cases i1) auto
  show ?case using Cons.IH [OF i(2)] by (simp add: i(1) algebra_simps)
qed

lemma take_drop_nth:
  "i + k \<le> length xs \<Longrightarrow> take k (drop i xs) = map (\<lambda>t. xs ! (i + t)) [0..<k]"
  by (rule nth_equalityI) simp_all

lemma prod_take_drop: "prod_list (take n s) * prod_list (drop n s) = prod_list s"
proof -
  have "prod_list (take n s @ drop n s) = prod_list s" by (simp only: append_take_drop_id)
  then show ?thesis by (simp only: prod_list.append)
qed

lemma shape_sum_over_axes: "shape (data (sum_over_axes nsp m)) = take nsp (shape (data m))"
  by (simp add: sum_over_axes_def collapse_def data_def Let_def)

lemma flat_sum_over_axes:
  "flat (data (sum_over_axes nsp m))
     = map (\<lambda>j. sum_list (take (prod_list (drop nsp (shape (data m))))
              (drop (j * prod_list (drop nsp (shape (data m)))) (flat (data m)))))
         [0..<prod_list (take nsp (shape (data m)))]"
  by (simp add: sum_over_axes_def collapse_def data_def Let_def)

lemma geom_sum_over_axes:
  "geom_shape (geom (sum_over_axes nsp m)) = take nsp (geom_shape (geom m))"
  by (simp add: sum_over_axes_def geom_def Let_def)

lemma wf_sum_over_axes: "wf_ndarray (data (sum_over_axes nsp m))"
  by (simp add: wf_ndarray_def shape_sum_over_axes flat_sum_over_axes)

lemma sum_sum_over_axes:
  fixes m :: "('c, 'a::monoid_add) MapBase"
  assumes "wf_ndarray (data m)"
  shows "sum_list (flat (data (sum_over_axes nsp m))) = sum_list (flat (data m))"
proof -
  let ?s = "shape (data m)"
  have "length (flat (data m)) = prod_list (take nsp ?s) * prod_list (drop nsp ?s)"
    using assms by (simp only: wf_ndarray_def prod_take_drop)
  then have "take (prod_list (take nsp ?s) * prod_list (drop nsp ?s)) (flat (data m))
      = flat (data m)" by simp
  then show ?thesis by (simp only: flat_sum_over_axes sum_list_chunks)
qed

lemma item_sum_over_axes:
  fixes m :: "('c, 'a::monoid_add) MapBase"
  assumes wf: "wf_ndarray (data m)"
    and dom: "in_domain (take nsp (shape (data m))) sp"
  shows "item (data (sum_over_axes nsp m)) sp
         = sum_list (map (\<lambda>t. item (data m) (sp @ map int t))
             (ndindex (drop nsp (shape (data m)))))"
proof -
  define s1 where "s1 = take nsp (shape (data m))"
  define s2 where "s2 = drop nsp (shape (data m))"
  define k where "k = prod_list s2"
  define n where "n = prod_list s1"
  define xs where "xs = flat (data m)"
  define J where "J = ravel_multi_index s1 (map nat sp)"
  have s: "shape (data m) = s1 @ s2" by (simp add: s1_def s2_def)
  have len: "length xs = n * k"
    using wf by (simp add: wf_ndarray_def xs_def n_def k_def s)
  have v: "valid_index s1 (map nat sp)"
    using dom unfolding s1_def by (rule in_domain_valid)
  have J: "J < n" unfolding J_def n_def using v by (rule ravel_less)
  have lsp: "length (map nat sp) = length s1"
    using v unfolding valid_index_def by (rule list_all2_lengthD)
  have "Suc J * k \<le> n * k" using J by (intro mult_le_mono1) simp
  then have bound: "J * k + k \<le> length xs" by (simp add: len add.commute)
  have lhs: "item (data (sum_over_axes nsp m)) sp = sum_list (take k (drop (J * k) xs))"
    using J
    by (simp add: item_def shape_sum_over_axes flat_sum_over_axes
        s1_def [symmetric] s2_def [symmetric] k_def [symmetric] n_def [symmetric]
        xs_def [symmetric] J_def [symmetric])
  have td: "take k (drop (J * k) xs) = map (\<lambda>t. xs ! (J * k + t)) [0..<k]"
    using bound by (rule take_drop_nth)
  have el: "item (data m) (sp @ map int (unravel_index s2 i)) = xs ! (J * k + i)"
    if "i < k" for i
  proof -
    have "ravel_multi_index (s1 @ s2) (map nat sp @ unravel_index s2 i)
        = J * k + ravel_multi_index s2 (unravel_index s2 i)"
      unfolding J_def k_def using lsp by (rule ravel_append)
    moreover have "ravel_multi_index s2 (unravel_index s2 i) = i"
      using that unfolding k_def by (rule ravel_unravel)
    ultimately show ?thesis
      by (simp add: item_def s xs_def comp_def)
  qed
  have "map (\<lambda>t. item (data m) (sp @ map int t)) (ndindex s2)
      = map (\<lambda>i. item (data m) (sp @ map int (unravel_index s2 i))) [0..<k]"
    by (simp add: ndindex_unravel k_def comp_def)
  also have "\<dots> = map (\<lambda>i. xs ! (J * k + i)) [0..<k]"
    by (rule map_cong) (simp_all add: el)
  finally have rhs: "map (\<lambda>t. item (data m) (sp @ map int t)) (ndindex s2)
      = map (\<lambda>i. xs ! (J * k + i)) [0..<k]" .
  show ?thesis unfolding s2_def [symmetric] by (simp only: lhs td rhs)
qed

text \<open>
  C5: \<^verbatim>\<open>sum_over_axes\<close> returns a map with the spatial axes only, whose geometry
  is the spatial part of the original's, whose data is well formed and sums to the same
  total as the original's, and whose value at a spatial pixel is the sum of the original's
  values over all indices of the other axes; its cursor is fresh. In a store of arrays the
  result's array lies at an address of its own: the original's array is untouched, and
  writing to the original afterwards does not change the result.
\<close>

theorem sum_over_axes_conserves:
  fixes m :: "('c, 'a::monoid_add) MapBase"
  assumes "wf_ndarray (data m)" and "a < length store"
  shows "shape (data (sum_over_axes nsp m)) = take nsp (shape (data m)) \<and>
         geom_shape (geom (sum_over_axes nsp m)) = take nsp (geom_shape (geom m)) \<and>
         wf_ndarray (data (sum_over_axes nsp m)) \<and>
         u_iter (sum_over_axes nsp m) = None \<and>
         sum_list (flat (data (sum_over_axes nsp m))) = sum_list (flat (data m)) \<and>
         (in_domain (take nsp (shape (data m))) sp \<longrightarrow>
            item (data (sum_over_axes nsp m)) sp
              = sum_list (map (\<lambda>t. item (data m) (sp @ map int t))
                  (ndindex (drop nsp (shape (data m)))))) \<and>
         snd (sum_over_axes_store nsp store a) \<noteq> a \<and>
         fst (sum_over_axes_store nsp store a) ! a = store ! a \<and>
         fst (sum_over_axes_store nsp store a) ! snd (sum_over_axes_store nsp store a)
           = data (sum_over_axes nsp (m\<lparr>u_data := store ! a\<rparr>)) \<and>
         (fst (sum_over_axes_store nsp store a)) [a := v] ! snd (sum_over_axes_store nsp store a)
           = data (sum_over_axes nsp (m\<lparr>u_data := store ! a\<rparr>))"
proof -
  have 1: "u_iter (sum_over_axes nsp m) = None" by (simp add: sum_over_axes_def)
  have 2: "sum_list (flat (data (sum_over_axes nsp m))) = sum_list (flat (data m))"
    using assms(1) by (rule sum_sum_over_axes)
  have 3: "in_domain (take nsp (shape (data m))) sp \<longrightarrow>
      item (data (sum_over_axes nsp m)) sp
        = sum_list (map (\<lambda>t. item (data m) (sp @ map int t))
            (ndindex (drop nsp (shape (data m)))))"
    using assms(1) by (intro impI item_sum_over_axes)
  have 4: "snd (sum_over_axes_store nsp store a) \<noteq> a"
    using assms(2) by (simp add: sum_over_axes_store_def)
  have 5: "fst (sum_over_axes_store nsp store a) ! a = store ! a"
    using assms(2) by (simp add: sum_over_axes_store_def nth_append)
  have 6: "fst (sum_over_axes_store nsp store a) ! snd (sum_over_axes_store nsp store a)
      = data (sum_over_axes nsp (m\<lparr>u_data := store ! a\<rparr>))"
    by (simp add: sum_over_axes_store_def sum_over_axes_def data_def)
  have 7: "(fst (sum_over_axes_store nsp store a)) [a := v]
        ! snd (sum_over_axes_store nsp store a)
      = data (sum_over_axes nsp (m\<lparr>u_data := store ! a\<rparr>))"
    using assms(2) by (simp add: sum_over_axes_store_def sum_over_axes_def data_def nth_append)
  from 1 2 3 4 5 6 7 show ?thesis
    by (intro conjI shape_sum_over_axes geom_sum_over_axes wf_sum_over_axes)
qed

text \<open>
  C5, witness: a 2 x 2 x 2 map holding 1 to 8 collapses to a 2 x 2 map with total 36 and
  the value 5 + 6 at pixel (1, 0).
\<close>

theorem sum_over_axes_conserves_witness:
  "shape (data (sum_over_axes 2 (init \<lparr>geom_shape = [2, 2, 2], coord_to_pix = id\<rparr>
      \<lparr>shape = [2, 2, 2], flat = [1, 2, 3, 4, 5, 6, 7, 8 :: int]\<rparr>))) = [2, 2] \<and>
   sum_list (flat (data (sum_over_axes 2 (init \<lparr>geom_shape = [2, 2, 2], coord_to_pix = id\<rparr>
      \<lparr>shape = [2, 2, 2], flat = [1, 2, 3, 4, 5, 6, 7, 8 :: int]\<rparr>)))) = 36 \<and>
   item (data (sum_over_axes 2 (init \<lparr>geom_shape = [2, 2, 2], coord_to_pix = id\<rparr>
      \<lparr>shape = [2, 2, 2], flat = [1, 2, 3, 4, 5, 6, 7, 8 :: int]\<rparr>))) [1, 0] = 11 \<and>
   snd (sum_over_axes_store 2 [\<lparr>shape = [2, 2, 2], flat = [1, 2, 3, 4, 5, 6, 7, 8 :: int]\<rparr>] 0)
     \<noteq> 0"
proof -
  let ?d = "\<lparr>shape = [2, 2, 2], flat = [1, 2, 3, 4, 5, 6, 7, 8 :: int]\<rparr>"
  let ?m = "init \<lparr>geom_shape = [2, 2, 2], coord_to_pix = id :: int list \<Rightarrow> int list\<rparr> ?d"
  have wf: "wf_ndarray (data ?m)" by (simp add: wf_ndarray_def data_def init_def)
  have a: "(0 :: nat) < length [?d]" by simp
  have d: "data ?m = ?d" by (simp add: data_def init_def)
  have dom: "in_domain (take 2 (shape (data ?m))) [1, 0]"
    by (simp add: d in_domain_def)
  have nd: "ndindex (drop 2 (shape (data ?m))) = [[0], [1]]"
    by (simp add: d upt_rec)
  note t = sum_over_axes_conserves [OF wf a, where nsp = 2 and sp = "[1, 0]"]
  have 1: "shape (data (sum_over_axes 2 ?m)) = [2, 2]"
    using t [THEN conjunct1] by (simp add: d)
  have 2: "sum_list (flat (data (sum_over_axes 2 ?m))) = 36"
    using t by (simp add: d)
  have "item (data (sum_over_axes 2 ?m)) [1, 0]
      = sum_list (map (\<lambda>t. item (data ?m) ([1, 0] @ map int t))
          (ndindex (drop 2 (shape (data ?m)))))"
    using t dom by blast
  then have 3: "item (data (sum_over_axes 2 ?m)) [1, 0] = 11"
    unfolding nd by (simp add: d item_def)
  have 4: "snd (sum_over_axes_store 2 [?d] 0) \<noteq> 0"
    using t by blast
  from 1 2 3 4 show ?thesis by (intro conjI)
qed

end
